theory Spec2Isabelle
  imports Main "HOL-Library.AList"
begin

section \<open>Data model\<close>

text \<open>
  An ElementTree element as the two programs use it: its tag, its text (Python's
  \<open>None\<close> when the element holds no character data) and its direct children in
  document order. Attributes and tails are never read by the code.

  A \<open>char\<close> stands for one code point of the range U+0000..U+00FF, a \<open>string\<close> for a
  Python \<open>str\<close> over that range.
\<close>

datatype Element = Element (el_tag: string) (el_text: "string option") (el_children: "Element list")

text \<open>\<open>e.find(t)\<close>: the first direct child with tag \<open>t\<close>, or \<open>None\<close>.\<close>

definition find_el :: "string \<Rightarrow> Element \<Rightarrow> Element option" where
  "find_el t e = List.find (\<lambda>c. el_tag c = t) (el_children e)"

text \<open>\<open>e.findall(t)\<close>: every direct child with tag \<open>t\<close>, in document order.\<close>

definition findall :: "string \<Rightarrow> Element \<Rightarrow> Element list" where
  "findall t e = filter (\<lambda>c. el_tag c = t) (el_children e)"

text \<open>
  \<open>str.lower()\<close> on the code points U+0000..U+00FF: the letters A..Z and the Latin-1
  capitals U+00C0..U+00DE (the multiplication sign U+00D7 apart) move up by 32, every
  other code point stays.
\<close>

definition lower_char :: "char \<Rightarrow> char" where
  "lower_char c =
     (let n = (of_char c :: nat)
      in if (65 \<le> n \<and> n \<le> 90) \<or> (192 \<le> n \<and> n \<le> 222 \<and> n \<noteq> 215)
         then char_of (n + 32) else c)"

definition lower :: "string \<Rightarrow> string" where
  "lower s = map lower_char s"

text \<open>
  The condensed representation of one condition, the dict \<open>conditionDataRep\<close> with its
  two keys. \<open>mesh_code\<close> holds whatever \<open>.text\<close> gave, \<open>None\<close> included.
\<close>

record conditionDataRep =
  mesh_code :: "string option"
  entry_terms :: "string list"

text \<open>
  A Python dict keeps its keys in insertion order, and storing under a key that is
  already there replaces the value in place: an association list with
  \<^const>\<open>AList.update\<close>.
\<close>

type_synonym mesh_dict = "(string \<times> conditionDataRep) list"

text \<open>
  What ends a run early: \<open>exit()\<close> raises \<open>SystemExit\<close>; indexing \<open>None\<close> raises
  \<open>TypeError\<close> and indexing the empty string \<open>IndexError\<close>, neither caught anywhere; a
  dict read at a key it lacks raises \<open>KeyError\<close>.
  An outcome pairs the result with the lines printed on the way.
\<close>

datatype exn = SystemExit | TypeError | IndexError | KeyError

type_synonym 'a outcome = "(exn + 'a) \<times> string list"

section \<open>MeSHParser.py\<close>

text \<open>
  The inner loop of \<open>parseCondition\<close> over the \<open>Term\<close> children of one \<open>TermList\<close>,
  appending to \<open>entryTerms\<close>; \<open>None\<close> is an exception raised inside the \<open>try\<close> block.
\<close>

fun term_loop :: "Element list \<Rightarrow> string list \<Rightarrow> string list option" where
  "term_loop [] entryTerms = Some entryTerms"
| "term_loop (termX # rest) entryTerms =
     (case find_el ''String'' termX of
        None \<Rightarrow> None
      | Some s \<Rightarrow>
          (case el_text s of
             None \<Rightarrow> None
           | Some t \<Rightarrow> term_loop rest (entryTerms @ [lower t])))"

text \<open>The outer loop over the \<open>Concept\<close> children of the \<open>ConceptList\<close>.\<close>

fun concept_loop :: "Element list \<Rightarrow> string list \<Rightarrow> string list option" where
  "concept_loop [] entryTerms = Some entryTerms"
| "concept_loop (concept # rest) entryTerms =
     (case find_el ''TermList'' concept of
        None \<Rightarrow> None
      | Some termList \<Rightarrow>
          (case term_loop (findall ''Term'' termList) entryTerms of
             None \<Rightarrow> None
           | Some entryTerms' \<Rightarrow> concept_loop rest entryTerms'))"

definition parseCondition :: "Element \<Rightarrow> (string \<times> conditionDataRep) outcome" where
  "parseCondition conditionData =
     (case Option.bind (Option.bind (find_el ''DescriptorName'' conditionData) (find_el ''String''))
             el_text of
        None \<Rightarrow> (Inl SystemExit, [''Error: could not retrieve MeSH term of condition''])
      | Some name \<Rightarrow>
          (case Option.bind (find_el ''TreeNumberList'' conditionData) (find_el ''TreeNumber'') of
             None \<Rightarrow> (Inl SystemExit, [''Error: could not retrieve MeSH code of condition''])
           | Some leaf \<Rightarrow>
               (case Option.bind (find_el ''ConceptList'' conditionData)
                       (\<lambda>conceptList. concept_loop (findall ''Concept'' conceptList) []) of
                  None \<Rightarrow> (Inl SystemExit, [''Error: could not retrieve brand name data of drug''])
                | Some entryTerms \<Rightarrow>
                    (Inr (lower name, \<lparr>mesh_code = el_text leaf, entry_terms = entryTerms\<rparr>), []))))"

text \<open>
  \<open>isCondition\<close>: the read of the code is inside the \<open>try\<close> block, the indexing
  \<open>code[0]\<close> after it.
\<close>

definition isCondition :: "Element \<Rightarrow> bool outcome" where
  "isCondition descriptor =
     (case Option.bind (find_el ''TreeNumberList'' descriptor) (find_el ''TreeNumber'') of
        None \<Rightarrow> (Inr False, [''Error: could not retrieve MeSH code of descriptor''])
      | Some leaf \<Rightarrow>
          (case el_text leaf of
             None \<Rightarrow> (Inl TypeError, [])
           | Some [] \<Rightarrow> (Inl IndexError, [])
           | Some (c # _) \<Rightarrow> (Inr (c = CHR ''C''), [])))"

text \<open>
  The loop of \<open>parseFile\<close> over the entries of the root, with the dict \<open>data\<close> built
  so far.
\<close>

fun parseFile_loop :: "Element list \<Rightarrow> mesh_dict \<Rightarrow> mesh_dict outcome" where
  "parseFile_loop [] data = (Inr data, [])"
| "parseFile_loop (descriptorRecord # rest) data =
     (case isCondition descriptorRecord of
        (Inl e, pr) \<Rightarrow> (Inl e, pr)
      | (Inr False, pr) \<Rightarrow>
          (case parseFile_loop rest data of (r, pr') \<Rightarrow> (r, pr @ pr'))
      | (Inr True, pr) \<Rightarrow>
          (case parseCondition descriptorRecord of
             (Inl e, pr2) \<Rightarrow> (Inl e, pr @ pr2)
           | (Inr (k, v), pr2) \<Rightarrow>
               (case parseFile_loop rest (AList.update k v data) of
                  (r, pr') \<Rightarrow> (r, pr @ pr2 @ pr'))))"

text \<open>
  \<open>parseFile\<close> from the parsed root on. The stream \<open>out\<close> is the list of objects
  dumped to it so far; \<open>json.dump\<close> appends one.
\<close>

definition MeSHParser_parseFile ::
  "Element \<Rightarrow> mesh_dict list \<Rightarrow> (exn + unit) \<times> string list \<times> mesh_dict list" where
  "MeSHParser_parseFile root out =
     (case parseFile_loop (el_children root) [] of
        (Inl e, pr) \<Rightarrow> (Inl e, pr, out)
      | (Inr data, pr) \<Rightarrow> (Inr (), pr, out @ [data]))"

section \<open>JSONMeSHAliasParser.py\<close>

text \<open>
  The csv file is the list of rows written so far, a row being its cells in the order
  of \<open>FIELD_NAMES\<close>. \<open>DictWriter.writerow\<close> reads the dict \<open>row\<close> at each field name
  (a missing key gives the empty cell) and writes that row at once.
\<close>

type_synonym csv = "string list list"

definition FIELD_NAMES :: "string list" where
  "FIELD_NAMES = [''alias'', ''term'']"

definition writerow :: "(string \<times> string) list \<Rightarrow> csv \<Rightarrow> csv" where
  "writerow row out =
     out @ [map (\<lambda>k. case map_of row k of None \<Rightarrow> [] | Some v \<Rightarrow> v) FIELD_NAMES]"

text \<open>The inner loop over \<open>data[term]["entry_terms"]\<close>; it mutates the one dict \<open>row\<close>.\<close>

fun alias_loop ::
  "string list \<Rightarrow> (string \<times> string) list \<Rightarrow> csv \<Rightarrow> (string \<times> string) list \<times> csv" where
  "alias_loop [] row out = (row, out)"
| "alias_loop (alias # rest) row out =
     (let row' = AList.update ''alias'' alias row
      in alias_loop rest row' (writerow row' out))"

text \<open>
  The outer loop over the keys of \<open>data\<close>, each looked up again in \<open>data\<close>; a fresh
  \<open>row\<close> for every key.
\<close>

fun key_loop :: "string list \<Rightarrow> mesh_dict \<Rightarrow> csv \<Rightarrow> exn + csv" where
  "key_loop [] data out = Inr out"
| "key_loop (k # rest) data out =
     (case map_of data k of
        None \<Rightarrow> Inl KeyError
      | Some rep \<Rightarrow>
          key_loop rest data
            (snd (alias_loop (entry_terms rep) (AList.update ''term'' k []) out)))"

text \<open>\<open>parseFile\<close> from the loaded dict \<open>data\<close> on.\<close>

definition JSONMeSHAliasParser_parseFile :: "mesh_dict \<Rightarrow> csv \<Rightarrow> exn + csv" where
  "JSONMeSHAliasParser_parseFile data out = key_loop (map fst data) data out"

section \<open>The specification's words\<close>

text \<open>
  The rows the specification asks of the Expander: the terms in the mapping's order,
  and for each term one row (alias, term) per alias in stored order.
\<close>

definition spec_expand :: "mesh_dict \<Rightarrow> csv" where
  "spec_expand data = concat (map (\<lambda>(k, rep). map (\<lambda>alias. [alias, k]) (entry_terms rep)) data)"

text \<open>
  The Condenser's fixed paths: the text under the name container, and the first code
  leaf of the first code-list container.
\<close>

definition name_path :: "Element \<Rightarrow> string option" where
  "name_path e =
     (case find_el ''DescriptorName'' e of
        None \<Rightarrow> None
      | Some container \<Rightarrow>
          (case find_el ''String'' container of None \<Rightarrow> None | Some s \<Rightarrow> el_text s))"

definition code_leaf :: "Element \<Rightarrow> Element option" where
  "code_leaf e =
     (case find_el ''TreeNumberList'' e of
        None \<Rightarrow> None
      | Some container \<Rightarrow> find_el ''TreeNumber'' container)"

text \<open>
  The aliases as the specification words them: for each concept group the lowercased
  text of each of its term entries, the two levels flattened into one sequence in
  document order; \<open>None\<close> when a container, a text node or a text is missing anywhere
  on the way.
\<close>

definition spec_term_text :: "Element \<Rightarrow> string option" where
  "spec_term_text termX =
     (case find_el ''String'' termX of
        None \<Rightarrow> None
      | Some s \<Rightarrow> map_option lower (el_text s))"

definition spec_group :: "Element \<Rightarrow> string list option" where
  "spec_group concept =
     (case find_el ''TermList'' concept of
        None \<Rightarrow> None
      | Some termList \<Rightarrow> those (map spec_term_text (findall ''Term'' termList)))"

definition spec_aliases :: "Element \<Rightarrow> string list option" where
  "spec_aliases e =
     (case find_el ''ConceptList'' e of
        None \<Rightarrow> None
      | Some conceptList \<Rightarrow>
          map_option concat (those (map spec_group (findall ''Concept'' conceptList))))"

text \<open>
  The selection predicate of the specification, \<open>isSelectable\<close>: \<open>isCondition\<close>
  returns \<open>True\<close>. The pairs the selected entries of a document condense to, in
  document order.
\<close>

definition isSelectable :: "Element \<Rightarrow> bool" where
  "isSelectable d = (fst (isCondition d) = Inr True)"

definition selected_pairs :: "Element list \<Rightarrow> (string \<times> conditionDataRep) list" where
  "selected_pairs ds =
     List.map_filter (\<lambda>d. case fst (parseCondition d) of Inl e \<Rightarrow> None | Inr kv \<Rightarrow> Some kv)
       (filter isSelectable ds)"

text \<open>
  What \<open>ET.parse\<close> guarantees of every element it builds: the text is \<open>None\<close> or
  holds at least one character, never the empty string.
\<close>

fun parsed_text :: "Element \<Rightarrow> bool" where
  "parsed_text (Element t x cs) = (x \<noteq> Some [] \<and> list_all parsed_text cs)"

text \<open>
  An entry the loop of \<open>parseFile\<close> gets past: \<open>isCondition\<close> returns, and when it
  returns \<open>True\<close> then \<open>parseCondition\<close> returns too.
\<close>

definition entry_ok :: "Element \<Rightarrow> bool" where
  "entry_ok d =
     (case fst (isCondition d) of
        Inl e \<Rightarrow> False
      | Inr False \<Rightarrow> True
      | Inr True \<Rightarrow> (case fst (parseCondition d) of Inl e \<Rightarrow> False | Inr kv \<Rightarrow> True))"

section \<open>Example documents\<close>

text \<open>
  A descriptor record as the MeSH data has it: the name, one tree number and one concept
  whose term list holds the given entry terms.
\<close>

definition descriptor :: "string \<Rightarrow> string option \<Rightarrow> string list \<Rightarrow> Element" where
  "descriptor name code synonyms =
     Element ''DescriptorRecord'' None
       [Element ''DescriptorName'' None [Element ''String'' (Some name) []],
        Element ''TreeNumberList'' None [Element ''TreeNumber'' code []],
        Element ''ConceptList'' None
          [Element ''Concept'' None
             [Element ''TermList'' None
                (map (\<lambda>s. Element ''Term'' None [Element ''String'' (Some s) []]) synonyms)]]]"

text \<open>The condition of the specification's scenario, and a second one of the same name.\<close>

definition flu :: Element where
  "flu = descriptor ''Flu'' (Some ''C01.001'') [''Influenza'', ''Grippe'']"

definition flu_again :: Element where
  "flu_again = descriptor ''FLU'' (Some ''C08.730'') [''Grippe'']"

text \<open>A descriptor of another family, one with no tree numbers, one whose tree number is empty.\<close>

definition aspirin :: Element where
  "aspirin = descriptor ''Aspirin'' (Some ''D02.455'') [''ASA'']"

definition male :: Element where
  "male = Element ''DescriptorRecord'' None
     [Element ''DescriptorName'' None [Element ''String'' (Some ''Male'') []]]"

definition empty_code :: Element where
  "empty_code = descriptor ''Gout'' None []"

text \<open>A condition with no name, and one whose concept has no term list.\<close>

definition nameless :: Element where
  "nameless = Element ''DescriptorRecord'' None
     [Element ''TreeNumberList'' None [Element ''TreeNumber'' (Some ''C05.550'') []],
      Element ''ConceptList'' None []]"

definition no_term_list :: Element where
  "no_term_list = Element ''DescriptorRecord'' None
     [Element ''DescriptorName'' None [Element ''String'' (Some ''Gout'') []],
      Element ''TreeNumberList'' None [Element ''TreeNumber'' (Some ''C05.550'') []],
      Element ''ConceptList'' None [Element ''Concept'' None []]]"

text \<open>The root of a document with the given entries.\<close>

definition document :: "Element list \<Rightarrow> Element" where
  "document ds = Element ''DescriptorRecordSet'' None ds"

section \<open>Text normalisation\<close>

lemma lower_char_idem: "lower_char (lower_char c) = lower_char c"
proof -
  let ?n = "of_char c :: nat"
  have lt: "?n < 256" by simp
  show ?thesis
  proof (cases "(65 \<le> ?n \<and> ?n \<le> 90) \<or> (192 \<le> ?n \<and> ?n \<le> 222 \<and> ?n \<noteq> 215)")
    case True
    then have m: "(?n + 32) mod 256 = ?n + 32" by auto
    from True have "lower_char c = char_of (?n + 32)"
      by (simp add: lower_char_def Let_def)
    moreover have "lower_char (char_of (?n + 32)) = char_of (?n + 32)"
      using True by (auto simp add: lower_char_def Let_def m)
    ultimately show ?thesis by simp
  next
    case False
    then have "lower_char c = c" by (auto simp add: lower_char_def Let_def)
    then show ?thesis by simp
  qed
qed

text \<open>
  C9. Lowercasing is idempotent: lowercasing the result of lowercasing any string
  gives that result again.
\<close>

theorem lower_idempotent: "lower (lower s) = lower s"
  by (simp add: lower_def lower_char_idem)

section \<open>The Condenser, entry by entry\<close>

lemma term_loop_those:
  "term_loop xs acc = map_option (\<lambda>ys. acc @ ys) (those (map spec_term_text xs))"
proof (induction xs arbitrary: acc)
  case Nil
  then show ?case by simp
next
  case (Cons x xs)
  show ?case
    by (simp add: Cons.IH spec_term_text_def option.map_comp comp_def
        split: option.splits)
qed

lemma concept_loop_those:
  "concept_loop cs acc = map_option (\<lambda>yss. acc @ concat yss) (those (map spec_group cs))"
proof (induction cs arbitrary: acc)
  case Nil
  then show ?case by simp
next
  case (Cons c cs)
  show ?case
    by (simp add: Cons.IH spec_group_def term_loop_those option.map_comp comp_def
        split: option.splits)
qed

lemma parseCondition_code_leaf:
  "Option.bind (find_el ''TreeNumberList'' d) (find_el ''TreeNumber'') = code_leaf d"
  by (simp add: code_leaf_def split: option.splits)

lemma parseCondition_name_path:
  "Option.bind (Option.bind (find_el ''DescriptorName'' d) (find_el ''String'')) el_text
     = name_path d"
  by (simp add: name_path_def split: option.splits)

lemma parseCondition_aliases:
  "Option.bind (find_el ''ConceptList'' d)
      (\<lambda>conceptList. concept_loop (findall ''Concept'' conceptList) []) = spec_aliases d"
  by (simp add: spec_aliases_def concept_loop_those split: option.splits)

lemma parseCondition_paths:
  "parseCondition d =
     (case name_path d of
        None \<Rightarrow> (Inl SystemExit, [''Error: could not retrieve MeSH term of condition''])
      | Some name \<Rightarrow>
          (case code_leaf d of
             None \<Rightarrow> (Inl SystemExit, [''Error: could not retrieve MeSH code of condition''])
           | Some leaf \<Rightarrow>
               (case spec_aliases d of
                  None \<Rightarrow> (Inl SystemExit, [''Error: could not retrieve brand name data of drug''])
                | Some aliases \<Rightarrow>
                    (Inr (lower name, \<lparr>mesh_code = el_text leaf, entry_terms = aliases\<rparr>), []))))"
  unfolding parseCondition_def parseCondition_code_leaf parseCondition_name_path
    parseCondition_aliases ..

lemma isCondition_paths:
  "isCondition d =
     (case code_leaf d of
        None \<Rightarrow> (Inr False, [''Error: could not retrieve MeSH code of descriptor''])
      | Some leaf \<Rightarrow>
          (case el_text leaf of
             None \<Rightarrow> (Inl TypeError, [])
           | Some [] \<Rightarrow> (Inl IndexError, [])
           | Some (c # _) \<Rightarrow> (Inr (c = CHR ''C''), [])))"
  unfolding isCondition_def parseCondition_code_leaf ..

lemma isSelectable_iff:
  "isSelectable d \<longleftrightarrow>
   (\<exists>leaf rest. code_leaf d = Some leaf \<and> el_text leaf = Some (CHR ''C'' # rest))"
  by (auto simp add: isSelectable_def isCondition_paths split: option.splits list.splits)

lemma isSelectable_silent: "isSelectable d \<Longrightarrow> snd (isCondition d) = []"
  by (auto simp add: isSelectable_def isCondition_paths split: option.splits list.splits)

lemma parseCondition_Inr_silent:
  "fst (parseCondition d) = Inr kv \<Longrightarrow> snd (parseCondition d) = []"
  by (auto simp add: parseCondition_paths split: option.splits)

section \<open>The Expander\<close>

lemma alias_loop_rows:
  "map_of row ''term'' = Some k \<Longrightarrow>
   snd (alias_loop aliases row out) = out @ map (\<lambda>alias. [alias, k]) aliases"
proof (induction aliases arbitrary: row out)
  case Nil
  then show ?case by simp
next
  case (Cons a aliases)
  let ?row = "AList.update ''alias'' a row"
  have t: "map_of ?row ''term'' = Some k"
    using Cons.prems by (simp add: update_conv')
  have w: "writerow ?row out = out @ [[a, k]]"
    using Cons.prems by (simp add: writerow_def FIELD_NAMES_def update_conv')
  show ?case
    using Cons.IH [OF t, of "writerow ?row out"] by (simp add: Let_def w)
qed

lemma key_loop_rows:
  "distinct (map fst data) \<Longrightarrow> set ps \<subseteq> set data \<Longrightarrow>
   key_loop (map fst ps) data out = Inr (out @ spec_expand ps)"
proof (induction ps arbitrary: out)
  case Nil
  then show ?case by (simp add: spec_expand_def)
next
  case (Cons p ps)
  obtain k rep where p: "p = (k, rep)" by (cases p)
  from Cons.prems p have "map_of data k = Some rep" by simp
  moreover have "snd (alias_loop (entry_terms rep) (AList.update ''term'' k []) out)
      = out @ map (\<lambda>alias. [alias, k]) (entry_terms rep)"
    by (rule alias_loop_rows) simp
  moreover from Cons.prems have "set ps \<subseteq> set data" by simp
  ultimately show ?case
    using Cons.IH [OF Cons.prems(1)] p by (simp add: spec_expand_def)
qed

lemma parseFile_rows:
  "distinct (map fst data) \<Longrightarrow>
   JSONMeSHAliasParser_parseFile data out = Inr (out @ spec_expand data)"
  by (simp add: JSONMeSHAliasParser_parseFile_def key_loop_rows)

lemma spec_expand_member:
  "row \<in> set (spec_expand data) \<longleftrightarrow>
   (\<exists>k rep alias. (k, rep) \<in> set data \<and> alias \<in> set (entry_terms rep) \<and> row = [alias, k])"
  by (auto simp add: spec_expand_def)

lemma length_spec_expand:
  "length (spec_expand data) = sum_list (map (\<lambda>(k, rep). length (entry_terms rep)) data)"
  by (induction data) (auto simp add: spec_expand_def)

text \<open>
  C3. For every mapping (a dict: no key twice), the Expander appends to the sink exactly
  the rows got by walking the terms in the mapping's order and, for each term, its
  aliases in stored order, one row (alias, term) per alias. A term whose aliases are empty
  gets no row, and a row pairs a term with itself only when the term is in its own alias
  list.
\<close>

theorem expand_emits_rows_in_order:
  assumes "distinct (map fst data)"
  shows "JSONMeSHAliasParser_parseFile data out = Inr (out @ spec_expand data)
    \<and> (\<forall>k rep alias. (k, rep) \<in> set data \<and> entry_terms rep = []
          \<longrightarrow> [alias, k] \<notin> set (spec_expand data))
    \<and> (\<forall>k. [k, k] \<in> set (spec_expand data)
          \<longrightarrow> (\<exists>rep. map_of data k = Some rep \<and> k \<in> set (entry_terms rep)))"
proof (intro conjI allI impI)
  show "JSONMeSHAliasParser_parseFile data out = Inr (out @ spec_expand data)"
    using assms by (rule parseFile_rows)
next
  fix k rep a
  assume h: "(k, rep) \<in> set data \<and> entry_terms rep = []"
  show "[a, k] \<notin> set (spec_expand data)"
  proof
    assume "[a, k] \<in> set (spec_expand data)"
    then obtain rep' where r: "(k, rep') \<in> set data" "a \<in> set (entry_terms rep')"
      by (auto simp add: spec_expand_member)
    from assms h r(1) have "rep' = rep" by (meson eq_key_imp_eq_value)
    with h r(2) show False by simp
  qed
next
  fix k
  assume "[k, k] \<in> set (spec_expand data)"
  then obtain rep where r: "(k, rep) \<in> set data" "k \<in> set (entry_terms rep)"
    by (auto simp add: spec_expand_member)
  from assms r(1) have "map_of data k = Some rep" by simp
  with r(2) show "\<exists>rep. map_of data k = Some rep \<and> k \<in> set (entry_terms rep)" by blast
qed

theorem expand_emits_rows_in_order_witness:
  "distinct (map fst
      [(''flu'', \<lparr>mesh_code = Some ''C01.001'', entry_terms = [''influenza'', ''grippe'']\<rparr>),
       (''gout'', \<lparr>mesh_code = Some ''C05.550'', entry_terms = []\<rparr>)])
   \<and> JSONMeSHAliasParser_parseFile
      [(''flu'', \<lparr>mesh_code = Some ''C01.001'', entry_terms = [''influenza'', ''grippe'']\<rparr>),
       (''gout'', \<lparr>mesh_code = Some ''C05.550'', entry_terms = []\<rparr>)] []
     = Inr [[''influenza'', ''flu''], [''grippe'', ''flu'']]"
  using expand_emits_rows_in_order
    [of "[(''flu'', \<lparr>mesh_code = Some ''C01.001'', entry_terms = [''influenza'', ''grippe'']\<rparr>),
          (''gout'', \<lparr>mesh_code = Some ''C05.550'', entry_terms = []\<rparr>)]" "[]"]
  by (simp add: spec_expand_def)

text \<open>
  C4. For every intermediate mapping (a dict: no key twice), the number of rows the
  Expander produces is the sum, over the Records of the mapping, of the length of the
  Record's aliases.
\<close>

theorem expand_row_count:
  assumes "distinct (map fst data)"
  shows "\<exists>rows. JSONMeSHAliasParser_parseFile data out = Inr (out @ rows)
    \<and> length rows = sum_list (map (\<lambda>(k, rep). length (entry_terms rep)) data)"
  using assms parseFile_rows length_spec_expand by blast

theorem expand_row_count_witness:
  "distinct (map fst
      [(''flu'', \<lparr>mesh_code = Some ''C01.001'', entry_terms = [''influenza'', ''grippe'']\<rparr>),
       (''gout'', \<lparr>mesh_code = Some ''C05.550'', entry_terms = []\<rparr>)])
   \<and> (\<exists>rows. JSONMeSHAliasParser_parseFile
      [(''flu'', \<lparr>mesh_code = Some ''C01.001'', entry_terms = [''influenza'', ''grippe'']\<rparr>),
       (''gout'', \<lparr>mesh_code = Some ''C05.550'', entry_terms = []\<rparr>)] [] = Inr rows
     \<and> length rows = 2)"
  using expand_row_count
    [of "[(''flu'', \<lparr>mesh_code = Some ''C01.001'', entry_terms = [''influenza'', ''grippe'']\<rparr>),
          (''gout'', \<lparr>mesh_code = Some ''C05.550'', entry_terms = []\<rparr>)]" "[]"]
  by (simp add: numeral_2_eq_2)

section \<open>The Condenser's loop\<close>

lemma selected_pairs_Nil: "selected_pairs [] = []"
  by (simp add: selected_pairs_def)

lemma selected_pairs_Cons:
  "selected_pairs (d # ds) =
     (if isSelectable d
      then (case fst (parseCondition d) of
              Inl e \<Rightarrow> selected_pairs ds
            | Inr kv \<Rightarrow> kv # selected_pairs ds)
      else selected_pairs ds)"
  by (simp add: selected_pairs_def map_filter_simps split: sum.splits)

lemma selected_pairs_append:
  "selected_pairs (xs @ ys) = selected_pairs xs @ selected_pairs ys"
  by (simp add: selected_pairs_def map_filter_def)

lemma selected_pairs_member:
  "kv \<in> set (selected_pairs ds) \<longleftrightarrow>
   (\<exists>d\<in>set ds. isSelectable d \<and> fst (parseCondition d) = Inr kv)"
  by (induction ds) (auto simp add: selected_pairs_Nil selected_pairs_Cons split: sum.splits)

lemma selected_pairs_filter:
  "selected_pairs (filter isSelectable ds) = selected_pairs ds"
  by (simp add: selected_pairs_def)

lemma entry_ok_cases:
  "entry_ok d \<longleftrightarrow>
     fst (isCondition d) = Inr False \<or> (isSelectable d \<and> (\<exists>kv. fst (parseCondition d) = Inr kv))"
  by (auto simp add: entry_ok_def isSelectable_def split: sum.splits bool.splits)

lemma loop_skip:
  "fst (isCondition d) = Inr False \<Longrightarrow>
   parseFile_loop (d # ds) data =
     (fst (parseFile_loop ds data), snd (isCondition d) @ snd (parseFile_loop ds data))"
  by (cases "isCondition d") (simp split: prod.splits)

lemma loop_take:
  "isSelectable d \<Longrightarrow> fst (parseCondition d) = Inr (k, v) \<Longrightarrow>
   parseFile_loop (d # ds) data = parseFile_loop ds (AList.update k v data)"
  using isSelectable_silent [of d] parseCondition_Inr_silent [of d "(k, v)"]
  by (cases "isCondition d"; cases "parseCondition d") (simp add: isSelectable_def split: prod.splits)

lemma loop_crash:
  "fst (isCondition d) = Inl e \<Longrightarrow> parseFile_loop (d # ds) data = (Inl e, snd (isCondition d))"
  by (cases "isCondition d") simp

lemma loop_exit:
  "isSelectable d \<Longrightarrow> fst (parseCondition d) = Inl e \<Longrightarrow>
   parseFile_loop (d # ds) data = (Inl e, snd (parseCondition d))"
  using isSelectable_silent [of d]
  by (cases "isCondition d"; cases "parseCondition d") (simp add: isSelectable_def)

declare parseFile_loop.simps(2) [simp del]

lemma loop_ok:
  "list_all entry_ok ds \<Longrightarrow>
   parseFile_loop ds data =
     (Inr (fold (\<lambda>(k, v). AList.update k v) (selected_pairs ds) data),
      concat (map (\<lambda>d. snd (isCondition d)) ds))"
proof (induction ds arbitrary: data)
  case Nil
  then show ?case by (simp add: selected_pairs_Nil)
next
  case (Cons d ds)
  then have ok: "entry_ok d" and rest: "list_all entry_ok ds" by simp_all
  from ok consider (skip) "fst (isCondition d) = Inr False"
    | (take) kv where "isSelectable d" "fst (parseCondition d) = Inr kv"
    by (auto simp add: entry_ok_cases)
  then show ?case
  proof cases
    case skip
    then have "\<not> isSelectable d" by (simp add: isSelectable_def)
    then show ?thesis
      by (simp add: loop_skip [OF skip] Cons.IH [OF rest] selected_pairs_Cons)
  next
    case take
    obtain k v where kv: "kv = (k, v)" by (cases kv)
    show ?thesis
      using take kv
      by (simp add: loop_take [of d k v] Cons.IH [OF rest] selected_pairs_Cons
          isSelectable_silent)
  qed
qed

lemma loop_stops:
  "list_all entry_ok pre \<Longrightarrow> \<not> entry_ok d \<Longrightarrow>
   \<exists>e. parseFile_loop (pre @ d # post) data =
     (Inl e, concat (map (\<lambda>d. snd (isCondition d)) pre) @ snd (isCondition d)
               @ (if isSelectable d then snd (parseCondition d) else []))
     \<and> (if isSelectable d then fst (parseCondition d) = Inl e else fst (isCondition d) = Inl e)"
proof (induction pre arbitrary: data)
  case Nil
  show ?case
  proof (cases "isSelectable d")
    case True
    with Nil obtain e where "fst (parseCondition d) = Inl e"
      by (cases "fst (parseCondition d)") (auto simp add: entry_ok_cases)
    with True show ?thesis by (simp add: loop_exit isSelectable_silent)
  next
    case False
    with Nil obtain e where "fst (isCondition d) = Inl e"
      by (cases "fst (isCondition d)") (auto simp add: entry_ok_cases isSelectable_def)
    with False show ?thesis by (simp add: loop_crash)
  qed
next
  case (Cons p pre)
  then have ok: "entry_ok p" and rest: "list_all entry_ok pre" by simp_all
  from ok consider (skip) "fst (isCondition p) = Inr False"
    | (take) kv where "isSelectable p" "fst (parseCondition p) = Inr kv"
    by (auto simp add: entry_ok_cases)
  then show ?case
  proof cases
    case skip
    from Cons.IH [OF rest Cons.prems(2), of data] show ?thesis
      by (auto simp add: loop_skip [OF skip])
  next
    case take
    obtain k v where kv: "kv = (k, v)" by (cases kv)
    from Cons.IH [OF rest Cons.prems(2), of "AList.update k v data"] show ?thesis
      using take kv by (auto simp add: loop_take [of p k v] isSelectable_silent)
  qed
qed

lemma loop_Inr_ok:
  "fst (parseFile_loop ds data) = Inr m \<Longrightarrow> list_all entry_ok ds"
proof (induction ds arbitrary: data)
  case Nil
  then show ?case by simp
next
  case (Cons d ds)
  show ?case
  proof (cases "fst (isCondition d)")
    case (Inl e)
    from loop_crash [OF Inl, of ds data] Cons.prems show ?thesis by simp
  next
    case (Inr b)
    show ?thesis
    proof (cases b)
      case False
      with Inr have skip: "fst (isCondition d) = Inr False" by simp
      from loop_skip [OF skip, of ds data] Cons.prems
      have "fst (parseFile_loop ds data) = Inr m" by simp
      from Cons.IH [OF this] skip show ?thesis by (simp add: entry_ok_cases)
    next
      case True
      with Inr have sel: "isSelectable d" by (simp add: isSelectable_def)
      show ?thesis
      proof (cases "fst (parseCondition d)")
        case (Inl e)
        from loop_exit [OF sel Inl, of ds data] Cons.prems show ?thesis by simp
      next
        case (Inr kv)
        obtain k v where kv: "kv = (k, v)" by (cases kv)
        from Inr kv have pc: "fst (parseCondition d) = Inr (k, v)" by simp
        from loop_take [OF sel pc, of ds data] Cons.prems
        have "fst (parseFile_loop ds (AList.update k v data)) = Inr m" by simp
        from Cons.IH [OF this] sel pc show ?thesis by (simp add: entry_ok_cases)
      qed
    qed
  qed
qed

lemma fold_update_map_of:
  "map_of (fold (\<lambda>(k, v). AList.update k v) ps data) = map_of data ++ map_of (rev ps)"
proof (induction ps arbitrary: data)
  case Nil
  then show ?case by simp
next
  case (Cons p ps)
  obtain k v where p: "p = (k, v)" by (cases p)
  show ?case
    by (simp add: p Cons.IH update_conv' fun_eq_iff map_add_def
        split: option.splits)
qed

lemma fold_update_distinct:
  "distinct (map fst data) \<Longrightarrow>
   distinct (map fst (fold (\<lambda>(k, v). AList.update k v) ps data))"
proof (induction ps arbitrary: data)
  case Nil
  then show ?case by simp
next
  case (Cons p ps)
  obtain k v where p: "p = (k, v)" by (cases p)
  from Cons.prems have "distinct (map fst (AList.update k v data))"
    by (rule distinct_update)
  from Cons.IH [OF this] show ?case by (simp add: p)
qed

lemma loop_Inr:
  assumes "parseFile_loop ds data = (Inr m, pr)"
  shows "list_all entry_ok ds"
    and "m = fold (\<lambda>(k, v). AList.update k v) (selected_pairs ds) data"
    and "pr = concat (map (\<lambda>d. snd (isCondition d)) ds)"
proof -
  from assms have "fst (parseFile_loop ds data) = Inr m" by simp
  then show ok: "list_all entry_ok ds" by (rule loop_Inr_ok)
  from loop_ok [OF ok, of data] assms
  show "m = fold (\<lambda>(k, v). AList.update k v) (selected_pairs ds) data"
    and "pr = concat (map (\<lambda>d. snd (isCondition d)) ds)"
    by simp_all
qed

lemma loop_Inr_member:
  assumes "parseFile_loop ds [] = (Inr m, pr)"
  shows "kv \<in> set m \<Longrightarrow> kv \<in> set (selected_pairs ds)"
    and "distinct (map fst m)"
    and "map_of m = map_of (rev (selected_pairs ds))"
proof -
  note m = loop_Inr(2) [OF assms]
  show d: "distinct (map fst m)"
    unfolding m by (rule fold_update_distinct) simp
  show e: "map_of m = map_of (rev (selected_pairs ds))"
    unfolding m by (simp add: fold_update_map_of)
  assume "kv \<in> set m"
  with d have "map_of m (fst kv) = Some (snd kv)" by (cases kv) simp
  with e have "map_of (rev (selected_pairs ds)) (fst kv) = Some (snd kv)" by simp
  then have "(fst kv, snd kv) \<in> set (rev (selected_pairs ds))" by (rule map_of_SomeD)
  then show "kv \<in> set (selected_pairs ds)" by simp
qed

lemma isCondition_prints:
  "snd (isCondition d) =
     (if code_leaf d = None then [''Error: could not retrieve MeSH code of descriptor''] else [])"
  by (auto simp add: isCondition_paths split: option.splits list.splits)

lemma loop_prints:
  "concat (map (\<lambda>d. snd (isCondition d)) ds) =
     map (\<lambda>d. ''Error: could not retrieve MeSH code of descriptor'')
       (filter (\<lambda>d. code_leaf d = None) ds)"
  by (induction ds) (simp_all add: isCondition_prints)

lemma selected_mesh_code:
  assumes "isSelectable d" "fst (parseCondition d) = Inr (k, v)"
  shows "\<exists>rest. mesh_code v = Some (CHR ''C'' # rest)"
proof -
  from assms(1) obtain leaf rest where
    l: "code_leaf d = Some leaf" "el_text leaf = Some (CHR ''C'' # rest)"
    by (auto simp add: isSelectable_iff)
  with assms(2) have "mesh_code v = Some (CHR ''C'' # rest)"
    by (auto simp add: parseCondition_paths split: option.splits)
  then show ?thesis ..
qed

lemma unselected_mesh_code:
  assumes "fst (isCondition d) = Inr False" "fst (parseCondition d) = Inr (k, v)"
  shows "\<nexists>rest. mesh_code v = Some (CHR ''C'' # rest)"
  using assms
  by (auto simp add: parseCondition_paths isCondition_paths split: option.splits list.splits)

section \<open>Claims about one entry\<close>

text \<open>
  C2. On every entry that \<open>parseCondition\<close> condenses, the pair returned is the
  lowercased text of the name path, and a Record whose code is the text of the first
  code leaf as it stands and whose aliases are the lowercased texts of the term entries of
  the concept groups, the two levels flattened in document order, duplicates kept.
\<close>

theorem condense_returns_term_and_record:
  assumes "fst (parseCondition d) = Inr (k, rep)"
  shows "(\<exists>name. name_path d = Some name \<and> k = lower name)
    \<and> (\<exists>leaf. code_leaf d = Some leaf \<and> mesh_code rep = el_text leaf)
    \<and> spec_aliases d = Some (entry_terms rep)"
  using assms by (auto simp add: parseCondition_paths split: option.splits)

theorem condense_returns_term_and_record_witness:
  "fst (parseCondition (descriptor ''Flu'' (Some ''C01.001'') [''Influenza'', ''Grippe'', ''Grippe'']))
     = Inr (''flu'', \<lparr>mesh_code = Some ''C01.001'',
                      entry_terms = [''influenza'', ''grippe'', ''grippe'']\<rparr>)
   \<and> name_path (descriptor ''Flu'' (Some ''C01.001'') [''Influenza'', ''Grippe'', ''Grippe''])
     = Some ''Flu''
   \<and> spec_aliases (descriptor ''Flu'' (Some ''C01.001'') [''Influenza'', ''Grippe'', ''Grippe''])
     = Some [''influenza'', ''grippe'', ''grippe'']"
proof -
  let ?d = "descriptor ''Flu'' (Some ''C01.001'') [''Influenza'', ''Grippe'', ''Grippe'']"
  let ?rep = "\<lparr>mesh_code = Some ''C01.001'',
                 entry_terms = [''influenza'', ''grippe'', ''grippe'']\<rparr>"
  have h: "fst (parseCondition ?d) = Inr (''flu'', ?rep)" by code_simp
  have n: "name_path ?d = Some ''Flu''" by code_simp
  from condense_returns_term_and_record [OF h] have "spec_aliases ?d = Some (entry_terms ?rep)"
    by blast
  with h n show ?thesis by simp
qed

text \<open>
  C10. The code-extraction error branch of \<open>parseCondition\<close> is unreachable for an
  entry \<open>isCondition\<close> accepted: such an entry has its first code leaf, so
  \<open>parseCondition\<close> on it does not print the code diagnostic, and no run of the loop of
  \<open>parseFile\<close> ever prints it.
\<close>

theorem selected_entry_code_read_cannot_fail:
  "(fst (isCondition d) = Inr True \<longrightarrow>
      code_leaf d \<noteq> None
      \<and> ''Error: could not retrieve MeSH code of condition'' \<notin> set (snd (parseCondition d)))
   \<and> ''Error: could not retrieve MeSH code of condition'' \<notin> set (snd (parseFile_loop ds data))"
proof (intro conjI impI)
  assume "fst (isCondition d) = Inr True"
  then have "isSelectable d" by (simp add: isSelectable_def)
  then show "code_leaf d \<noteq> None" by (auto simp add: isSelectable_iff)
  then show "''Error: could not retrieve MeSH code of condition'' \<notin> set (snd (parseCondition d))"
    by (auto simp add: parseCondition_paths split: option.splits)
next
  have sel: "''Error: could not retrieve MeSH code of condition'' \<notin> set (snd (parseCondition d))"
    if "isSelectable d" for d
    using that by (auto simp add: isSelectable_iff parseCondition_paths split: option.splits)
  have isc: "''Error: could not retrieve MeSH code of condition'' \<notin> set (snd (isCondition d))"
    for d by (simp add: isCondition_prints)
  show "''Error: could not retrieve MeSH code of condition'' \<notin> set (snd (parseFile_loop ds data))"
  proof (induction ds arbitrary: data)
    case Nil
    then show ?case by simp
  next
    case (Cons d ds)
    show ?case
    proof (cases "fst (isCondition d)")
      case (Inl e)
      from loop_crash [OF Inl, of ds data] isc [of d] show ?thesis by simp
    next
      case (Inr b)
      show ?thesis
      proof (cases b)
        case False
        with Inr have skip: "fst (isCondition d) = Inr False" by simp
        from loop_skip [OF skip, of ds data] isc [of d] Cons.IH [of data] show ?thesis by simp
      next
        case True
        with Inr have s: "isSelectable d" by (simp add: isSelectable_def)
        show ?thesis
        proof (cases "fst (parseCondition d)")
          case (Inl e)
          from loop_exit [OF s Inl, of ds data] sel [OF s] show ?thesis by simp
        next
          case (Inr kv)
          obtain k v where kv: "kv = (k, v)" by (cases kv)
          from Inr kv have pc: "fst (parseCondition d) = Inr (k, v)" by simp
          from loop_take [OF s pc, of ds data] Cons.IH [of "AList.update k v data"]
          show ?thesis by simp
        qed
      qed
    qed
  qed
qed

theorem selected_entry_code_read_cannot_fail_witness:
  "fst (isCondition nameless) = Inr True
   \<and> code_leaf nameless \<noteq> None
   \<and> snd (parseCondition nameless) = [''Error: could not retrieve MeSH term of condition'']
   \<and> ''Error: could not retrieve MeSH code of condition'' \<notin> set (snd (parseCondition nameless))
   \<and> ''Error: could not retrieve MeSH code of condition''
        \<notin> set (snd (parseFile_loop [male, nameless, flu] []))"
proof -
  have h: "fst (isCondition nameless) = Inr True" by code_simp
  have p: "snd (parseCondition nameless) = [''Error: could not retrieve MeSH term of condition'']"
    by code_simp
  from selected_entry_code_read_cannot_fail [of nameless "[male, nameless, flu]" "[]"] h p
  show ?thesis by simp
qed

text \<open>
  C6 fails on the code: an entry whose code leaf is present with no text makes
  \<open>isCondition\<close> raise \<open>TypeError\<close> at \<open>code[0]\<close>, outside the \<open>try\<close> block, and
  the run ends there, the entries after it unread and nothing dumped.
\<close>

theorem isCondition_raises_on_empty_code_leaf:
  "code_leaf empty_code = Some (Element ''TreeNumber'' None [])
   \<and> isCondition empty_code = (Inl TypeError, [])
   \<and> MeSHParser_parseFile (document [empty_code, flu]) [] = (Inl TypeError, [], [])"
  by code_simp

lemma isCondition_absent_code_path:
  "code_leaf d = None \<Longrightarrow>
   isCondition d = (Inr False, [''Error: could not retrieve MeSH code of descriptor''])"
  by (simp add: isCondition_paths)

section \<open>Claims about the mapping\<close>

text \<open>
  C1. The mapping the loop of \<open>parseFile\<close> returns holds Records of selected entries
  only: every Record in it is what \<open>parseCondition\<close> makes of an entry of the document
  whose first code leaf's text starts with \<open>C\<close>; no entry that \<open>isCondition\<close> did not
  accept (its marker differs, or it has no code path) has its Record in the mapping; and
  the mapping is the one built from the selected entries alone.
\<close>

theorem mapping_holds_selected_entries_only:
  assumes "parseFile_loop (el_children root) [] = (Inr m, pr)"
  shows "(\<forall>(k, v)\<in>set m. \<exists>d\<in>set (el_children root). \<exists>leaf rest.
            code_leaf d = Some leaf \<and> el_text leaf = Some (CHR ''C'' # rest)
            \<and> fst (isCondition d) = Inr True \<and> fst (parseCondition d) = Inr (k, v))
    \<and> (\<forall>d\<in>set (el_children root). fst (isCondition d) \<noteq> Inr True \<longrightarrow>
          (\<forall>kv. fst (parseCondition d) = Inr kv \<longrightarrow> kv \<notin> set m))
    \<and> fst (parseFile_loop (filter isSelectable (el_children root)) []) = Inr m"
proof (intro conjI)
  let ?ds = "el_children root"
  note ok = loop_Inr(1) [OF assms]
  have from_sel: "\<exists>d\<in>set ?ds. isSelectable d \<and> fst (parseCondition d) = Inr kv"
    if "kv \<in> set m" for kv
    using loop_Inr_member(1) [OF assms that] by (simp add: selected_pairs_member)
  show "\<forall>(k, v)\<in>set m. \<exists>d\<in>set ?ds. \<exists>leaf rest.
            code_leaf d = Some leaf \<and> el_text leaf = Some (CHR ''C'' # rest)
            \<and> fst (isCondition d) = Inr True \<and> fst (parseCondition d) = Inr (k, v)"
  proof (intro ballI, clarify)
    fix k v
    assume "(k, v) \<in> set m"
    from from_sel [OF this] obtain d where
      d: "d \<in> set ?ds" "isSelectable d" "fst (parseCondition d) = Inr (k, v)" by blast
    from d(2) obtain leaf rest where
      "code_leaf d = Some leaf" "el_text leaf = Some (CHR ''C'' # rest)"
      by (auto simp add: isSelectable_iff)
    with d show "\<exists>d\<in>set ?ds. \<exists>leaf rest.
            code_leaf d = Some leaf \<and> el_text leaf = Some (CHR ''C'' # rest)
            \<and> fst (isCondition d) = Inr True \<and> fst (parseCondition d) = Inr (k, v)"
      unfolding isSelectable_def by blast
  qed
  show "\<forall>d\<in>set ?ds. fst (isCondition d) \<noteq> Inr True \<longrightarrow>
          (\<forall>kv. fst (parseCondition d) = Inr kv \<longrightarrow> kv \<notin> set m)"
  proof (intro ballI impI allI)
    fix d kv
    assume d: "d \<in> set ?ds" "fst (isCondition d) \<noteq> Inr True" "fst (parseCondition d) = Inr kv"
    obtain k v where kv: "kv = (k, v)" by (cases kv)
    from ok d(1) have "entry_ok d" by (simp add: list_all_iff)
    with d(2) have skip: "fst (isCondition d) = Inr False"
      by (auto simp add: entry_ok_cases isSelectable_def)
    from d(3) kv have pc: "fst (parseCondition d) = Inr (k, v)" by simp
    show "kv \<notin> set m"
    proof
      assume "kv \<in> set m"
      from from_sel [OF this] kv obtain d' where
        "isSelectable d'" "fst (parseCondition d') = Inr (k, v)" by blast
      then have "\<exists>rest. mesh_code v = Some (CHR ''C'' # rest)" by (rule selected_mesh_code)
      with unselected_mesh_code [OF skip pc] show False by blast
    qed
  qed
  from ok have "list_all entry_ok (filter isSelectable ?ds)" by (simp add: list_all_iff)
  from loop_ok [OF this, of "[]"] loop_Inr(2) [OF assms]
  show "fst (parseFile_loop (filter isSelectable ?ds) []) = Inr m"
    by (simp add: selected_pairs_filter)
qed

theorem mapping_holds_selected_entries_only_witness:
  "parseFile_loop (el_children (document [flu, aspirin, male])) []
     = (Inr [(''flu'', \<lparr>mesh_code = Some ''C01.001'', entry_terms = [''influenza'', ''grippe'']\<rparr>)],
        [''Error: could not retrieve MeSH code of descriptor''])
   \<and> fst (isCondition aspirin) = Inr False
   \<and> fst (parseCondition aspirin)
       = Inr (''aspirin'', \<lparr>mesh_code = Some ''D02.455'', entry_terms = [''asa'']\<rparr>)
   \<and> fst (parseFile_loop (filter isSelectable (el_children (document [flu, aspirin, male]))) [])
     = Inr [(''flu'', \<lparr>mesh_code = Some ''C01.001'', entry_terms = [''influenza'', ''grippe'']\<rparr>)]"
proof -
  have h: "parseFile_loop (el_children (document [flu, aspirin, male])) []
     = (Inr [(''flu'', \<lparr>mesh_code = Some ''C01.001'', entry_terms = [''influenza'', ''grippe'']\<rparr>)],
        [''Error: could not retrieve MeSH code of descriptor''])"
    by code_simp
  have a: "fst (isCondition aspirin) = Inr False" by code_simp
  have b: "fst (parseCondition aspirin)
       = Inr (''aspirin'', \<lparr>mesh_code = Some ''D02.455'', entry_terms = [''asa'']\<rparr>)"
    by code_simp
  from mapping_holds_selected_entries_only [OF h] h a b show ?thesis by blast
qed

lemma distinct_key_once:
  "distinct (map fst m) \<Longrightarrow> map_of m t = Some r \<Longrightarrow>
   length (filter (\<lambda>(k, v). k = t) m) = 1"
proof (induction m)
  case Nil
  then show ?case by simp
next
  case (Cons p m)
  obtain k v where p: "p = (k, v)" by (cases p)
  show ?case
  proof (cases "k = t")
    case True
    with Cons.prems p have "t \<notin> fst ` set m" by simp
    then have "filter (\<lambda>(k, v). k = t) m = []"
      by (auto simp add: filter_empty_conv image_iff)
    with True p show ?thesis by simp
  next
    case False
    with Cons p show ?thesis by simp
  qed
qed

text \<open>
  C5. When two selected entries of a document condense to the same term, and no
  selected entry after the second does, the mapping returned holds exactly one Record
  under that term, the one of the second entry; and the lines printed by the run are
  one per entry without a code path, none for the collision.
\<close>

theorem duplicate_term_last_wins:
  assumes "parseFile_loop (el_children root) [] = (Inr m, pr)"
    and "el_children root = pre @ d1 # mid @ d2 # post"
    and "isSelectable d1" and "fst (parseCondition d1) = Inr (t, r1)"
    and "isSelectable d2" and "fst (parseCondition d2) = Inr (t, r2)"
    and "\<forall>d\<in>set post. isSelectable d \<longrightarrow> (\<forall>r. fst (parseCondition d) \<noteq> Inr (t, r))"
  shows "length (filter (\<lambda>(k, v). k = t) m) = 1 \<and> map_of m t = Some r2
    \<and> pr = map (\<lambda>d. ''Error: could not retrieve MeSH code of descriptor'')
             (filter (\<lambda>d. code_leaf d = None) (el_children root))"
proof -
  let ?sp = "selected_pairs (el_children root)"
  have sp: "?sp = (selected_pairs pre @ (t, r1) # selected_pairs mid)
                    @ (t, r2) # selected_pairs post"
    using assms(2-6) by (simp add: selected_pairs_append selected_pairs_Cons)
  from assms(7) have "t \<notin> fst ` set (selected_pairs post)"
    by (auto simp add: selected_pairs_member)
  then have "map_of (rev (selected_pairs post)) t = None"
    by (simp add: map_of_eq_None_iff)
  then have "map_of (rev ?sp) t = Some r2"
    unfolding sp by (simp add: map_add_def)
  with loop_Inr_member(3) [OF assms(1)] have look: "map_of m t = Some r2" by simp
  from loop_Inr_member(2) [OF assms(1)] look
  have once: "length (filter (\<lambda>(k, v). k = t) m) = 1" by (rule distinct_key_once)
  from loop_Inr(3) [OF assms(1)]
  have "pr = map (\<lambda>d. ''Error: could not retrieve MeSH code of descriptor'')
             (filter (\<lambda>d. code_leaf d = None) (el_children root))"
    by (simp add: loop_prints)
  with once look show ?thesis by simp
qed

theorem duplicate_term_last_wins_witness:
  "parseFile_loop (el_children (document [flu, aspirin, male, flu_again])) []
     = (Inr [(''flu'', \<lparr>mesh_code = Some ''C08.730'', entry_terms = [''grippe'']\<rparr>)],
        [''Error: could not retrieve MeSH code of descriptor''])
   \<and> isSelectable flu
   \<and> fst (parseCondition flu)
       = Inr (''flu'', \<lparr>mesh_code = Some ''C01.001'', entry_terms = [''influenza'', ''grippe'']\<rparr>)
   \<and> isSelectable flu_again
   \<and> fst (parseCondition flu_again)
       = Inr (''flu'', \<lparr>mesh_code = Some ''C08.730'', entry_terms = [''grippe'']\<rparr>)
   \<and> map_of [(''flu'', \<lparr>mesh_code = Some ''C08.730'', entry_terms = [''grippe'']\<rparr>)] ''flu''
       = Some \<lparr>mesh_code = Some ''C08.730'', entry_terms = [''grippe'']\<rparr>"
proof -
  let ?root = "document [flu, aspirin, male, flu_again]"
  let ?m = "[(''flu'', \<lparr>mesh_code = Some ''C08.730'', entry_terms = [''grippe'']\<rparr>)]"
  have h1: "parseFile_loop (el_children ?root) []
     = (Inr ?m, [''Error: could not retrieve MeSH code of descriptor''])"
    by code_simp
  have h2: "el_children ?root = [] @ flu # [aspirin, male] @ flu_again # []"
    by (simp add: document_def)
  have h3: "isSelectable flu" by code_simp
  have h4: "fst (parseCondition flu)
       = Inr (''flu'', \<lparr>mesh_code = Some ''C01.001'', entry_terms = [''influenza'', ''grippe'']\<rparr>)"
    by code_simp
  have h5: "isSelectable flu_again" by code_simp
  have h6: "fst (parseCondition flu_again)
       = Inr (''flu'', \<lparr>mesh_code = Some ''C08.730'', entry_terms = [''grippe'']\<rparr>)"
    by code_simp
  have h7: "\<forall>d\<in>set []. isSelectable d \<longrightarrow> (\<forall>r. fst (parseCondition d) \<noteq> Inr (''flu'', r))"
    by simp
  from duplicate_term_last_wins [OF h1 h2 h3 h4 h5 h6 h7] h1 h3 h4 h5 h6
  show ?thesis by blast
qed

text \<open>
  C7. A selected entry whose name path, code path or alias path is missing or malformed
  ends the whole run: \<open>parseFile\<close> returns no mapping and leaves the stream \<open>out\<close> as
  it was, whatever the entries before it put into the dict. When the entries before it
  are all got past, the run ends with \<open>SystemExit\<close> and the last line printed is the
  diagnostic of the field that failed.
\<close>

theorem condense_failure_is_fatal:
  assumes "d \<in> set (el_children root)" and "isSelectable d"
    and "name_path d = None \<or> code_leaf d = None \<or> spec_aliases d = None"
  shows "(\<exists>e pr. MeSHParser_parseFile root out = (Inl e, pr, out))
    \<and> (\<forall>pre post. el_children root = pre @ d # post \<and> list_all entry_ok pre \<longrightarrow>
          MeSHParser_parseFile root out =
            (Inl SystemExit,
             concat (map (\<lambda>p. snd (isCondition p)) pre)
               @ [if name_path d = None then ''Error: could not retrieve MeSH term of condition''
                  else if code_leaf d = None then ''Error: could not retrieve MeSH code of condition''
                  else ''Error: could not retrieve brand name data of drug''],
             out))"
proof (intro conjI allI impI)
  from assms(3) have pc: "parseCondition d =
      (Inl SystemExit,
       [if name_path d = None then ''Error: could not retrieve MeSH term of condition''
        else if code_leaf d = None then ''Error: could not retrieve MeSH code of condition''
        else ''Error: could not retrieve brand name data of drug''])"
    by (auto simp add: parseCondition_paths split: option.splits)
  with assms(2) have bad: "\<not> entry_ok d" by (simp add: entry_ok_cases isSelectable_def)
  show "\<exists>e pr. MeSHParser_parseFile root out = (Inl e, pr, out)"
  proof (cases "parseFile_loop (el_children root) []")
    case (Pair res pr)
    show ?thesis
    proof (cases res)
      case (Inl e)
      with Pair show ?thesis by (simp add: MeSHParser_parseFile_def)
    next
      case (Inr m)
      with Pair have "fst (parseFile_loop (el_children root) []) = Inr m" by simp
      then have "list_all entry_ok (el_children root)" by (rule loop_Inr_ok)
      with assms(1) bad show ?thesis by (simp add: list_all_iff)
    qed
  qed
  fix pre post
  assume "el_children root = pre @ d # post \<and> list_all entry_ok pre"
  then have split: "el_children root = pre @ d # post" and ok: "list_all entry_ok pre"
    by simp_all
  from loop_stops [OF ok bad, of post "[]"] assms(2) pc split
  show "MeSHParser_parseFile root out =
            (Inl SystemExit,
             concat (map (\<lambda>p. snd (isCondition p)) pre)
               @ [if name_path d = None then ''Error: could not retrieve MeSH term of condition''
                  else if code_leaf d = None then ''Error: could not retrieve MeSH code of condition''
                  else ''Error: could not retrieve brand name data of drug''],
             out)"
    by (auto simp add: MeSHParser_parseFile_def isSelectable_silent)
qed

theorem condense_failure_is_fatal_witness:
  "no_term_list \<in> set (el_children (document [flu, male, no_term_list, flu_again]))
   \<and> isSelectable no_term_list
   \<and> name_path no_term_list = Some ''Gout''
   \<and> spec_aliases no_term_list = None
   \<and> list_all entry_ok [flu, male]
   \<and> MeSHParser_parseFile (document [flu, male, no_term_list, flu_again]) []
     = (Inl SystemExit,
        [''Error: could not retrieve MeSH code of descriptor'',
         ''Error: could not retrieve brand name data of drug''],
        [])"
proof -
  let ?root = "document [flu, male, no_term_list, flu_again]"
  have h1: "no_term_list \<in> set (el_children ?root)" by (simp add: document_def)
  have h2: "isSelectable no_term_list" by code_simp
  have n: "name_path no_term_list = Some ''Gout''" by code_simp
  have a: "spec_aliases no_term_list = None" by code_simp
  then have h3: "name_path no_term_list = None \<or> code_leaf no_term_list = None
      \<or> spec_aliases no_term_list = None" by simp
  have s: "el_children ?root = [flu, male] @ no_term_list # [flu_again]"
    by (simp add: document_def)
  have ok: "list_all entry_ok [flu, male]" by code_simp
  have pr: "concat (map (\<lambda>p. snd (isCondition p)) [flu, male])
      = [''Error: could not retrieve MeSH code of descriptor'']" by code_simp
  have c: "code_leaf no_term_list \<noteq> None" using h2 by (auto simp add: isSelectable_iff)
  from condense_failure_is_fatal [OF h1 h2 h3, of "[]"] s ok
  have "MeSHParser_parseFile ?root [] =
      (Inl SystemExit,
       concat (map (\<lambda>p. snd (isCondition p)) [flu, male])
         @ [if name_path no_term_list = None
            then ''Error: could not retrieve MeSH term of condition''
            else if code_leaf no_term_list = None
            then ''Error: could not retrieve MeSH code of condition''
            else ''Error: could not retrieve brand name data of drug''],
       [])"
    by blast
  with h1 h2 n a ok pr c show ?thesis by simp
qed

lemma parsed_text_text: "parsed_text e \<Longrightarrow> el_text e \<noteq> Some []"
  by (cases e) simp

lemma parsed_text_child: "parsed_text e \<Longrightarrow> c \<in> set (el_children e) \<Longrightarrow> parsed_text c"
  by (cases e) (simp add: list_all_iff)

lemma find_el_member: "find_el t e = Some c \<Longrightarrow> c \<in> set (el_children e)"
  by (auto simp add: find_el_def find_Some_iff)

lemma parsed_name_nonempty:
  assumes "parsed_text d" and "name_path d = Some name"
  shows "name \<noteq> []"
proof -
  from assms(2) obtain container s where
    c: "find_el ''DescriptorName'' d = Some container"
    and s: "find_el ''String'' container = Some s" and t: "el_text s = Some name"
    by (auto simp add: name_path_def split: option.splits)
  from assms(1) c have "parsed_text container"
    by (blast intro: parsed_text_child find_el_member)
  with s have "parsed_text s" by (blast intro: parsed_text_child find_el_member)
  with t show ?thesis using parsed_text_text by fastforce
qed

text \<open>
  C8. For every document as \<open>ET.parse\<close> builds it (no element's text is the empty
  string) on which the loop of \<open>parseFile\<close> completes, every key of the mapping
  returned is a non-empty string.
\<close>

theorem mapping_terms_nonempty:
  assumes "parsed_text root" and "parseFile_loop (el_children root) [] = (Inr m, pr)"
  shows "\<forall>(k, v)\<in>set m. k \<noteq> []"
proof (intro ballI, clarify)
  fix v
  assume "([], v) \<in> set m"
  from loop_Inr_member(1) [OF assms(2) this] obtain d where
    d: "d \<in> set (el_children root)" "fst (parseCondition d) = Inr ([], v)"
    by (auto simp add: selected_pairs_member)
  from d(2) obtain name where n: "name_path d = Some name" "lower name = []"
    by (auto simp add: parseCondition_paths split: option.splits)
  from assms(1) d(1) have "parsed_text d" by (rule parsed_text_child)
  from parsed_name_nonempty [OF this n(1)] n(2) show False by (simp add: lower_def)
qed

theorem mapping_terms_nonempty_witness:
  "parsed_text (document [flu, aspirin, male])
   \<and> parseFile_loop (el_children (document [flu, aspirin, male])) []
     = (Inr [(''flu'', \<lparr>mesh_code = Some ''C01.001'', entry_terms = [''influenza'', ''grippe'']\<rparr>)],
        [''Error: could not retrieve MeSH code of descriptor''])
   \<and> ''flu'' \<noteq> []"
proof -
  have h1: "parsed_text (document [flu, aspirin, male])" by code_simp
  have h2: "parseFile_loop (el_children (document [flu, aspirin, male])) []
     = (Inr [(''flu'', \<lparr>mesh_code = Some ''C01.001'', entry_terms = [''influenza'', ''grippe'']\<rparr>)],
        [''Error: could not retrieve MeSH code of descriptor''])"
    by code_simp
  from mapping_terms_nonempty [OF h1 h2] have "''flu'' \<noteq> []" by simp
  with h1 h2 show ?thesis by simp
qed

end
